theory Spec2Isabelle
  imports Main "HOL-Library.Char_ord" "HOL-Library.List_Lexorder"
begin

section \<open>Values of the document store\<close>

text \<open>
  The file \<^verbatim>\<open>src/backend/database.py\<close> keeps JSON-like Python values in plain
  dictionaries. A value is \<^verbatim>\<open>None\<close>, a boolean, an integer, a string, a list or a
  dictionary with string keys. A dictionary is an association list in insertion order;
  the keys of a Python dictionary are distinct. Floating point numbers are left out.
  Objects are modelled by value: two references to one list are two equal lists.
\<close>

datatype pyval =
    VNone
  | VBool bool
  | VInt int
  | VStr string
  | VList "pyval list"
  | VDict "(string \<times> pyval) list"

type_synonym doc = "(string \<times> pyval) list"

text \<open>The backing dictionary \<^verbatim>\<open>self.data\<close>: document id to the other fields.\<close>

type_synonym store = "(pyval \<times> doc) list"

datatype error = KeyError | TypeError | AttributeError

text \<open>
  Python's \<^verbatim>\<open>==\<close>: \<^verbatim>\<open>True == 1\<close> and \<^verbatim>\<open>False == 0\<close> hold, lists are equal
  element by element, dictionaries are equal when they have the same keys with equal
  values, whatever the insertion order.
\<close>

primrec py_eq :: "pyval \<Rightarrow> pyval \<Rightarrow> bool" where
  "py_eq VNone y = (case y of VNone \<Rightarrow> True | _ \<Rightarrow> False)"
| "py_eq (VBool b) y =
     (case y of VBool c \<Rightarrow> b = c | VInt j \<Rightarrow> j = (if b then 1 else 0) | _ \<Rightarrow> False)"
| "py_eq (VInt i) y =
     (case y of VInt j \<Rightarrow> i = j | VBool c \<Rightarrow> i = (if c then 1 else 0) | _ \<Rightarrow> False)"
| "py_eq (VStr s) y = (case y of VStr t \<Rightarrow> s = t | _ \<Rightarrow> False)"
| "py_eq (VList xs) y =
     (case y of VList ys \<Rightarrow> list_all2 (\<lambda>f w. f w) (map py_eq xs) ys | _ \<Rightarrow> False)"
| "py_eq (VDict kvs) y =
     (case y of
        VDict kws \<Rightarrow>
          length kvs = length kws \<and>
          list_all (\<lambda>(k, f). case map_of kws k of None \<Rightarrow> False | Some w \<Rightarrow> f w)
            (map (map_prod id py_eq) kvs)
      | _ \<Rightarrow> False)"

text \<open>Lists and dictionaries are unhashable: they cannot be dictionary keys.\<close>

fun hashable :: "pyval \<Rightarrow> bool" where
  "hashable (VList xs) = False"
| "hashable (VDict kvs) = False"
| "hashable v = True"

subsection \<open>Dictionaries with string keys\<close>

text \<open>\<^verbatim>\<open>d[k] = v\<close>: an existing key keeps its position, a new key goes last.\<close>

fun dict_set :: "doc \<Rightarrow> string \<Rightarrow> pyval \<Rightarrow> doc" where
  "dict_set [] k v = [(k, v)]"
| "dict_set ((k', v') # d) k v = (if k' = k then (k, v) # d else (k', v') # dict_set d k v)"

definition dict_del :: "doc \<Rightarrow> string \<Rightarrow> doc" where
  "dict_del d k = filter (\<lambda>(k', v). k' \<noteq> k) d"

text \<open>The dictionary display \<^verbatim>\<open>{"_id": key, **value}\<close>.\<close>

definition with_id :: "pyval \<Rightarrow> doc \<Rightarrow> doc" where
  "with_id key val = foldl (\<lambda>d (k, v). dict_set d k v) [(''_id'', key)] val"

subsection \<open>Containers\<close>

text \<open>\<^verbatim>\<open>t in s\<close> on two strings: \<open>t\<close> occurs in \<open>s\<close> as a contiguous part.\<close>

fun is_prefix :: "string \<Rightarrow> string \<Rightarrow> bool" where
  "is_prefix [] s = True"
| "is_prefix (c # t) [] = False"
| "is_prefix (c # t) (d # s) = (c = d \<and> is_prefix t s)"

fun is_substr :: "string \<Rightarrow> string \<Rightarrow> bool" where
  "is_substr t [] = (t = [])"
| "is_substr t (c # s) = (is_prefix t (c # s) \<or> is_substr t s)"

text \<open>
  \<^verbatim>\<open>x in c\<close>. A list compares its elements with \<^verbatim>\<open>==\<close>, a dictionary looks
  \<open>x\<close> up among its keys and raises on an unhashable \<open>x\<close>, a string accepts only a
  string on the left, and every other value is no container.
\<close>

fun py_in :: "pyval \<Rightarrow> pyval \<Rightarrow> error + bool" where
  "py_in x (VList ys) = Inr (list_ex (\<lambda>y. py_eq y x) ys)"
| "py_in x (VDict kvs) =
     (if hashable x
      then Inr (case x of VStr k \<Rightarrow> map_of kvs k \<noteq> None | _ \<Rightarrow> False)
      else Inl TypeError)"
| "py_in x (VStr s) = (case x of VStr t \<Rightarrow> Inr (is_substr t s) | _ \<Rightarrow> Inl TypeError)"
| "py_in x v = Inl TypeError"

text \<open>Iterating a value: list elements, dictionary keys, the characters of a string.\<close>

fun py_iter :: "pyval \<Rightarrow> error + pyval list" where
  "py_iter (VList xs) = Inr xs"
| "py_iter (VDict kvs) = Inr (map (\<lambda>(k, v). VStr k) kvs)"
| "py_iter (VStr s) = Inr (map (\<lambda>c. VStr [c]) s)"
| "py_iter v = Inl TypeError"

text \<open>\<^verbatim>\<open>any(item in nested_value for item in items)\<close>, stopping at the first hit.\<close>

fun any_in :: "pyval list \<Rightarrow> pyval \<Rightarrow> error + bool" where
  "any_in [] v = Inr False"
| "any_in (item # items) v =
     (case py_in item v of
        Inl e \<Rightarrow> Inl e
      | Inr hit \<Rightarrow> if hit then Inr True else any_in items v)"

section \<open>Queries\<close>

text \<open>\<^verbatim>\<open>q_key.split(".")\<close>: one more piece than there are dots.\<close>

fun split_dot :: "string \<Rightarrow> string list" where
  "split_dot [] = [[]]"
| "split_dot (c # cs) =
     (if c = CHR ''.'' then [] # split_dot cs
      else (c # hd (split_dot cs)) # tl (split_dot cs))"

text \<open>
  The inner loop over \<^verbatim>\<open>nested_keys\<close> (lines 31 to 36): \<open>None\<close> is the
  \<^verbatim>\<open>match = False; break\<close> exit, \<open>Some v\<close> the value reached after the last key.
\<close>

fun resolve :: "string list \<Rightarrow> pyval \<Rightarrow> pyval option" where
  "resolve [] v = Some v"
| "resolve (nkey # nkeys) v =
     (case v of
        VDict kvs \<Rightarrow> (case map_of kvs nkey of Some w \<Rightarrow> resolve nkeys w | None \<Rightarrow> None)
      | _ \<Rightarrow> None)"

text \<open>
  \<^verbatim>\<open>isinstance(q_value, dict) and "$in" in q_value\<close>, with \<^verbatim>\<open>q_value["$in"]\<close>
  when it holds.
\<close>

definition in_candidates :: "pyval \<Rightarrow> pyval option" where
  "in_candidates q_value = (case q_value of VDict qd \<Rightarrow> map_of qd ''$in'' | _ \<Rightarrow> None)"

text \<open>
  The loop over \<^verbatim>\<open>query.items()\<close> (lines 23 to 42) for one stored document, with
  the flag \<^verbatim>\<open>match\<close> as an argument. The two \<^verbatim>\<open>break\<close> exits return
  \<open>Inr False\<close> at once; a dotted key that fails only clears the flag and goes on.
\<close>

fun match_clauses :: "pyval \<Rightarrow> doc \<Rightarrow> doc \<Rightarrow> bool \<Rightarrow> error + bool" where
  "match_clauses key val [] m = Inr m"
| "match_clauses key val ((q_key, q_value) # qs) m =
     (if q_key = ''_id'' then
        (if \<not> py_eq key q_value then Inr False else match_clauses key val qs m)
      else if CHR ''.'' \<in> set q_key then
        (case resolve (split_dot q_key) (VDict val) of
           None \<Rightarrow> match_clauses key val qs False
         | Some nested_value \<Rightarrow>
             (case in_candidates q_value of
                Some cands \<Rightarrow>
                  (if m then
                     (case py_iter cands of
                        Inl e \<Rightarrow> Inl e
                      | Inr items \<Rightarrow>
                          (case any_in items nested_value of
                             Inl e \<Rightarrow> Inl e
                           | Inr hit \<Rightarrow> match_clauses key val qs hit))
                   else match_clauses key val qs m)
              | None \<Rightarrow> match_clauses key val qs m))
      else
        (case map_of val q_key of
           None \<Rightarrow> Inr False
         | Some v \<Rightarrow> if \<not> py_eq v q_value then Inr False else match_clauses key val qs m))"

text \<open>The loop over \<^verbatim>\<open>self.data.items()\<close> (lines 21 to 44).\<close>

fun find_rows :: "doc \<Rightarrow> store \<Rightarrow> error + doc list" where
  "find_rows q [] = Inr []"
| "find_rows q ((key, val) # rest) =
     (case match_clauses key val q True of
        Inl e \<Rightarrow> Inl e
      | Inr m \<Rightarrow>
          (case find_rows q rest of
             Inl e \<Rightarrow> Inl e
           | Inr result \<Rightarrow> Inr (if m then with_id key val # result else result)))"

text \<open>\<^verbatim>\<open>find(query=None)\<close>; the collection is read, never written.\<close>

definition find_docs :: "doc option \<Rightarrow> store \<Rightarrow> error + doc list" where
  "find_docs query s =
     (case query of
        None \<Rightarrow> Inr (map (\<lambda>(k, v). with_id k v) s)
      | Some q \<Rightarrow> find_rows q s)"

definition find_one :: "doc option \<Rightarrow> store \<Rightarrow> error + doc option" where
  "find_one query s =
     (case find_docs query s of
        Inl e \<Rightarrow> Inl e
      | Inr results \<Rightarrow> Inr (case results of [] \<Rightarrow> None | d # ds \<Rightarrow> Some d))"

text \<open>\<^verbatim>\<open>len(self.find(query or {}))\<close>: an absent and an empty query both become \<^verbatim>\<open>{}\<close>.\<close>

definition count_documents :: "doc option \<Rightarrow> store \<Rightarrow> error + nat" where
  "count_documents query s =
     (case find_docs (Some (case query of None \<Rightarrow> [] | Some q \<Rightarrow> if q = [] then [] else q)) s of
        Inl e \<Rightarrow> Inl e
      | Inr results \<Rightarrow> Inr (length results))"

section \<open>Insertion and update\<close>

text \<open>
  \<^verbatim>\<open>self.data[doc_id]\<close>: an unhashable key raises \<^verbatim>\<open>TypeError\<close>, a key that is
  not there raises \<^verbatim>\<open>KeyError\<close>. Keys are compared with \<^verbatim>\<open>==\<close>.
\<close>

fun store_lookup :: "store \<Rightarrow> pyval \<Rightarrow> error + doc" where
  "store_lookup [] k = (if hashable k then Inl KeyError else Inl TypeError)"
| "store_lookup ((k', d) # s) k =
     (if \<not> hashable k then Inl TypeError
      else if py_eq k' k then Inr d else store_lookup s k)"

text \<open>
  \<^verbatim>\<open>self.data[doc_id] = doc\<close> for a hashable key: a key that is already there keeps
  its place and its first spelling, a new key goes last.
\<close>

fun store_set :: "store \<Rightarrow> pyval \<Rightarrow> doc \<Rightarrow> store" where
  "store_set [] k d = [(k, d)]"
| "store_set ((k', d') # s) k d =
     (if py_eq k' k then (k', d) # s else (k', d') # store_set s k d)"

text \<open>
  \<^verbatim>\<open>insert_one\<close> (lines 51 to 54). The result pairs what the call returns or raises
  with the backing dictionary it leaves behind.
\<close>

definition insert_one :: "doc \<Rightarrow> store \<Rightarrow> (error + pyval) \<times> store" where
  "insert_one d s =
     (case map_of d ''_id'' of
        None \<Rightarrow> (Inl KeyError, s)
      | Some doc_id \<Rightarrow>
          if hashable doc_id
          then (Inr doc_id, store_set s doc_id (dict_del d ''_id''))
          else (Inl TypeError, s))"

text \<open>\<^verbatim>\<open>xs.remove(value)\<close> once \<^verbatim>\<open>value in xs\<close> holds: the first equal element goes.\<close>

fun remove_first :: "pyval \<Rightarrow> pyval list \<Rightarrow> pyval list" where
  "remove_first v [] = []"
| "remove_first v (x # xs) = (if py_eq x v then xs else x # remove_first v xs)"

text \<open>
  The body of the \<^verbatim>\<open>$push\<close> loop (lines 62 to 65) on the fields of the matched
  document: \<^verbatim>\<open>append\<close> exists on lists only.
\<close>

definition push_field :: "string \<Rightarrow> pyval \<Rightarrow> doc \<Rightarrow> error + doc" where
  "push_field key v d =
     (case map_of d key of
        Some cur \<Rightarrow>
          (case cur of
             VList xs \<Rightarrow> Inr (dict_set d key (VList (xs @ [v])))
           | _ \<Rightarrow> Inl AttributeError)
      | None \<Rightarrow> Inr (dict_set d key (VList [v])))"

text \<open>
  The body of the \<^verbatim>\<open>$pull\<close> loop (lines 68 and 69): \<^verbatim>\<open>remove\<close> exists on lists
  only, and the membership test comes first.
\<close>

definition pull_field :: "string \<Rightarrow> pyval \<Rightarrow> doc \<Rightarrow> error + doc" where
  "pull_field key v d =
     (case map_of d key of
        None \<Rightarrow> Inr d
      | Some cur \<Rightarrow>
          (case py_in v cur of
             Inl e \<Rightarrow> Inl e
           | Inr hit \<Rightarrow>
               if hit then
                 (case cur of
                    VList xs \<Rightarrow> Inr (dict_set d key (VList (remove_first v xs)))
                  | _ \<Rightarrow> Inl AttributeError)
               else Inr d))"

text \<open>One pass of an operator loop, on the document stored under \<open>doc_id\<close>.\<close>

definition on_doc :: "(doc \<Rightarrow> error + doc) \<Rightarrow> pyval \<Rightarrow> store \<Rightarrow> error + store" where
  "on_doc f doc_id s =
     (case store_lookup s doc_id of
        Inl e \<Rightarrow> Inl e
      | Inr d \<Rightarrow> (case f d of Inl e \<Rightarrow> Inl e | Inr d' \<Rightarrow> Inr (store_set s doc_id d')))"

text \<open>
  The loop over the items of one operator. An exception leaves the changes of the
  earlier passes in place.
\<close>

fun run_items ::
  "(string \<Rightarrow> pyval \<Rightarrow> doc \<Rightarrow> error + doc) \<Rightarrow> pyval \<Rightarrow> doc \<Rightarrow> store \<Rightarrow> error option \<times> store"
where
  "run_items f doc_id [] s = (None, s)"
| "run_items f doc_id ((key, v) # items) s =
     (case on_doc (f key v) doc_id s of
        Inl e \<Rightarrow> (Some e, s)
      | Inr s' \<Rightarrow> run_items f doc_id items s')"

text \<open>
  \<^verbatim>\<open>if name in update: for key, value in update[name].items(): ...\<close>; only a
  dictionary has \<^verbatim>\<open>items\<close>.
\<close>

definition run_op ::
  "string \<Rightarrow> (string \<Rightarrow> pyval \<Rightarrow> doc \<Rightarrow> error + doc) \<Rightarrow> pyval \<Rightarrow> doc \<Rightarrow> store \<Rightarrow>
   error option \<times> store"
where
  "run_op name f doc_id update s =
     (case map_of update name of
        None \<Rightarrow> (None, s)
      | Some arg \<Rightarrow>
          (case arg of
             VDict items \<Rightarrow> run_items f doc_id items s
           | _ \<Rightarrow> (Some AttributeError, s)))"

text \<open>\<^verbatim>\<open>update_one\<close> (lines 56 to 71); the number is \<^verbatim>\<open>modified_count\<close>.\<close>

definition update_one :: "doc option \<Rightarrow> doc \<Rightarrow> store \<Rightarrow> (error + nat) \<times> store" where
  "update_one query update s =
     (case find_one query s of
        Inl e \<Rightarrow> (Inl e, s)
      | Inr None \<Rightarrow> (Inr 0, s)
      | Inr (Some d) \<Rightarrow>
          if d = [] then (Inr 0, s)
          else
            (case map_of d ''_id'' of
               None \<Rightarrow> (Inl KeyError, s)
             | Some doc_id \<Rightarrow>
                 (case run_op ''$push'' push_field doc_id update s of
                    (Some e, s1) \<Rightarrow> (Inl e, s1)
                  | (None, s1) \<Rightarrow>
                      (case run_op ''$pull'' pull_field doc_id update s1 of
                         (Some e, s2) \<Rightarrow> (Inl e, s2)
                       | (None, s2) \<Rightarrow> (Inr 1, s2)))))"

section \<open>Aggregation\<close>

text \<open>\<^verbatim>\<open>days.add(day)\<close> on a set kept in insertion order.\<close>

definition set_add :: "pyval list \<Rightarrow> pyval \<Rightarrow> error + pyval list" where
  "set_add days day =
     (if \<not> hashable day then Inl TypeError
      else if list_ex (\<lambda>d. py_eq d day) days then Inr days
      else Inr (days @ [day]))"

fun add_days :: "pyval list \<Rightarrow> pyval list \<Rightarrow> error + pyval list" where
  "add_days days [] = Inr days"
| "add_days days (day # rest) =
     (case set_add days day of Inl e \<Rightarrow> Inl e | Inr days' \<Rightarrow> add_days days' rest)"

text \<open>
  \<^verbatim>\<open>value["schedule_details"]["days"]\<close>: a list or a string cannot be indexed by a
  string.
\<close>

definition subscript :: "pyval \<Rightarrow> string \<Rightarrow> error + pyval" where
  "subscript v k =
     (case v of
        VDict kvs \<Rightarrow> (case map_of kvs k of None \<Rightarrow> Inl KeyError | Some w \<Rightarrow> Inr w)
      | _ \<Rightarrow> Inl TypeError)"

text \<open>The loop over \<^verbatim>\<open>self.data.values()\<close> (lines 80 to 83).\<close>

fun collect_days :: "pyval list \<Rightarrow> store \<Rightarrow> error + pyval list" where
  "collect_days days [] = Inr days"
| "collect_days days ((key, val) # rest) =
     (case map_of val ''schedule_details'' of
        None \<Rightarrow> collect_days days rest
      | Some sd \<Rightarrow>
          (case py_in (VStr ''days'') sd of
             Inl e \<Rightarrow> Inl e
           | Inr has \<Rightarrow>
               if has then
                 (case subscript sd ''days'' of
                    Inl e \<Rightarrow> Inl e
                  | Inr ds \<Rightarrow>
                      (case py_iter ds of
                         Inl e \<Rightarrow> Inl e
                       | Inr items \<Rightarrow>
                           (case add_days days items of
                              Inl e \<Rightarrow> Inl e
                            | Inr days' \<Rightarrow> collect_days days' rest)))
               else collect_days days rest))"

text \<open>
  \<^verbatim>\<open>sorted(days)\<close> on the elements of a set. Strings are ordered among themselves by
  their characters, integers and booleans among themselves by their number, and any
  other pair of elements cannot be compared. Fewer than two elements need no comparison.
\<close>

fun is_str :: "pyval \<Rightarrow> bool" where
  "is_str (VStr s) = True"
| "is_str v = False"

fun is_num :: "pyval \<Rightarrow> bool" where
  "is_num (VInt i) = True"
| "is_num (VBool b) = True"
| "is_num v = False"

fun str_of :: "pyval \<Rightarrow> string" where
  "str_of (VStr s) = s"
| "str_of v = []"

fun num_of :: "pyval \<Rightarrow> int" where
  "num_of (VInt i) = i"
| "num_of (VBool b) = (if b then 1 else 0)"
| "num_of v = 0"

definition py_sorted :: "pyval list \<Rightarrow> error + pyval list" where
  "py_sorted xs =
     (if length xs \<le> 1 then Inr xs
      else if list_all is_str xs then Inr (sort_key str_of xs)
      else if list_all is_num xs then Inr (sort_key num_of xs)
      else Inl TypeError)"

text \<open>\<^verbatim>\<open>aggregate\<close> (lines 76 to 85); \<^verbatim>\<open>and\<close> evaluates its operands left to right.\<close>

definition is_days_pipeline :: "pyval list \<Rightarrow> error + bool" where
  "is_days_pipeline pipeline =
     (if length pipeline = 3 then
        (case py_in (VStr ''$unwind'') (pipeline ! 0) of
           Inl e \<Rightarrow> Inl e
         | Inr u \<Rightarrow> if u then py_in (VStr ''$group'') (pipeline ! 1) else Inr False)
      else Inr False)"

definition aggregate :: "pyval list \<Rightarrow> store \<Rightarrow> error + doc list" where
  "aggregate pipeline s =
     (case is_days_pipeline pipeline of
        Inl e \<Rightarrow> Inl e
      | Inr shape \<Rightarrow>
          if shape then
            (case collect_days [] s of
               Inl e \<Rightarrow> Inl e
             | Inr days \<Rightarrow>
                 (case py_sorted days of
                    Inl e \<Rightarrow> Inl e
                  | Inr ds \<Rightarrow> Inr (map (\<lambda>day. [(''_id'', day)]) ds)))
          else Inr [])"

section \<open>Seeding\<close>

text \<open>
  The module holds two collections, and \<^verbatim>\<open>init_database\<close> (lines 96 to 107) fills
  each of them from its seed records when it is empty. The seed records
  \<^verbatim>\<open>initial_activities\<close> (a dictionary from name to details) and
  \<^verbatim>\<open>initial_teachers\<close> (a list of dictionaries) are arguments here.
\<close>

record database =
  activities_data :: store
  teachers_data :: store

fun seed_activities :: "(string \<times> doc) list \<Rightarrow> store \<Rightarrow> error option \<times> store" where
  "seed_activities [] s = (None, s)"
| "seed_activities ((name, details) # rest) s =
     (case insert_one (with_id (VStr name) details) s of
        (Inl e, s') \<Rightarrow> (Some e, s')
      | (Inr i, s') \<Rightarrow> seed_activities rest s')"

fun seed_teachers :: "doc list \<Rightarrow> store \<Rightarrow> error option \<times> store" where
  "seed_teachers [] s = (None, s)"
| "seed_teachers (teacher # rest) s =
     (case map_of teacher ''username'' of
        None \<Rightarrow> (Some KeyError, s)
      | Some username \<Rightarrow>
          (case insert_one (with_id username teacher) s of
             (Inl e, s') \<Rightarrow> (Some e, s')
           | (Inr i, s') \<Rightarrow> seed_teachers rest s'))"

text \<open>\<^verbatim>\<open>if collection.count_documents({}) == 0: for ...: collection.insert_one(...)\<close>\<close>

definition init_if_empty ::
  "('a \<Rightarrow> store \<Rightarrow> error option \<times> store) \<Rightarrow> 'a \<Rightarrow> store \<Rightarrow> error option \<times> store"
where
  "init_if_empty seed records s =
     (case count_documents (Some []) s of
        Inl e \<Rightarrow> (Some e, s)
      | Inr n \<Rightarrow> if n = 0 then seed records s else (None, s))"

definition init_database ::
  "(string \<times> doc) list \<Rightarrow> doc list \<Rightarrow> database \<Rightarrow> error option \<times> database"
where
  "init_database initial_activities initial_teachers db =
     (case init_if_empty seed_activities initial_activities (activities_data db) of
        (Some e, a) \<Rightarrow> (Some e, db\<lparr>activities_data := a\<rparr>)
      | (None, a) \<Rightarrow>
          (case init_if_empty seed_teachers initial_teachers (teachers_data db) of
             (r, t) \<Rightarrow> (r, db\<lparr>activities_data := a, teachers_data := t\<rparr>)))"

section \<open>Shapes of stores and documents\<close>

text \<open>
  The association lists stand for Python dictionaries, whose keys are hashable and
  pairwise different under \<^verbatim>\<open>==\<close>.
\<close>

fun keys_distinct :: "pyval list \<Rightarrow> bool" where
  "keys_distinct [] = True"
| "keys_distinct (k # ks) = (\<not> list_ex (\<lambda>k'. py_eq k' k) ks \<and> keys_distinct ks)"

definition store_ok :: "store \<Rightarrow> bool" where
  "store_ok s = (list_all hashable (map fst s) \<and> keys_distinct (map fst s))"

text \<open>A value all of whose dictionaries have distinct keys.\<close>

primrec wf_val :: "pyval \<Rightarrow> bool" where
  "wf_val VNone = True"
| "wf_val (VBool b) = True"
| "wf_val (VInt i) = True"
| "wf_val (VStr s) = True"
| "wf_val (VList xs) = list_all (\<lambda>b. b) (map wf_val xs)"
| "wf_val (VDict kvs) =
     (distinct (map fst kvs) \<and> list_all (\<lambda>(k, b). b) (map (map_prod id wf_val) kvs))"

text \<open>
  A field that an array operator can work on: absent, or holding a list. \<open>op_ok\<close>
  says so of every field named under one operator of an update.
\<close>

fun is_list :: "pyval \<Rightarrow> bool" where
  "is_list (VList xs) = True"
| "is_list v = False"

definition field_ok :: "doc \<Rightarrow> string \<Rightarrow> bool" where
  "field_ok d k = (case map_of d k of None \<Rightarrow> True | Some cur \<Rightarrow> is_list cur)"

definition op_ok :: "string \<Rightarrow> doc \<Rightarrow> doc \<Rightarrow> bool" where
  "op_ok name update d =
     (case map_of update name of
        None \<Rightarrow> True
      | Some arg \<Rightarrow>
          (case arg of VDict items \<Rightarrow> list_all (\<lambda>(k, v). field_ok d k) items | _ \<Rightarrow> False))"

text \<open>
  The elements of \<^verbatim>\<open>schedule_details.days\<close> across the stored documents, and the
  stores in which every \<^verbatim>\<open>schedule_details\<close> is a dictionary whose \<^verbatim>\<open>days\<close>,
  when there, is a list of strings.
\<close>

definition doc_days :: "doc \<Rightarrow> pyval list" where
  "doc_days val =
     (case map_of val ''schedule_details'' of
        Some (VDict kvs) \<Rightarrow> (case map_of kvs ''days'' of Some (VList xs) \<Rightarrow> xs | _ \<Rightarrow> [])
      | _ \<Rightarrow> [])"

definition all_days :: "store \<Rightarrow> pyval list" where
  "all_days s = concat (map (\<lambda>(key, val). doc_days val) s)"

definition days_ok :: "store \<Rightarrow> bool" where
  "days_ok s =
     list_all (\<lambda>(key, val).
       case map_of val ''schedule_details'' of
         None \<Rightarrow> True
       | Some sd \<Rightarrow>
           (case sd of
              VDict kvs \<Rightarrow>
                (case map_of kvs ''days'' of
                   None \<Rightarrow> True
                 | Some ds \<Rightarrow> (case ds of VList xs \<Rightarrow> list_all is_str xs | _ \<Rightarrow> False))
            | _ \<Rightarrow> False)) s"

section \<open>Counting and finding\<close>

lemma find_rows_no_clause: "find_rows [] s = Inr (map (\<lambda>(k, v). with_id k v) s)"
  by (induction s) auto

text \<open>
  Claim C2. For every collection state and every query, absent and empty included,
  \<^verbatim>\<open>count_documents\<close> gives the length of what \<^verbatim>\<open>find\<close> returns for the same
  query, and raises whatever \<^verbatim>\<open>find\<close> raises.
\<close>

theorem count_documents_length_find:
  "count_documents query s =
     (case find_docs query s of Inl e \<Rightarrow> Inl e | Inr results \<Rightarrow> Inr (length results))"
  by (cases query) (simp_all add: count_documents_def find_docs_def find_rows_no_clause)

section \<open>Insertion without an id\<close>

text \<open>
  Claim C5. A document without the key \<^verbatim>\<open>"_id"\<close> makes \<^verbatim>\<open>insert_one\<close> raise
  \<^verbatim>\<open>KeyError\<close>, and the backing dictionary stays as it was.
\<close>

theorem insert_one_missing_id:
  assumes "map_of d ''_id'' = None"
  shows "insert_one d s = (Inl KeyError, s)"
  using assms by (simp add: insert_one_def)

theorem insert_one_missing_id_witness:
  "map_of [(''name'', VStr ''Chess Club'')] ''_id'' = None \<and>
   insert_one [(''name'', VStr ''Chess Club'')] [(VStr ''a'', [])] =
     (Inl KeyError, [(VStr ''a'', [])])"
  using insert_one_missing_id [of "[(''name'', VStr ''Chess Club'')]" "[(VStr ''a'', [])]"]
  by simp

section \<open>Updates that match nothing\<close>

text \<open>
  Claim C6. When the query matches no document, \<^verbatim>\<open>update_one\<close> reports a modified
  count of 0 and the backing dictionary stays as it was, whatever the update says.
\<close>

theorem update_one_no_match:
  assumes "find_docs query s = Inr []"
  shows "update_one query update s = (Inr 0, s)"
  using assms by (simp add: update_one_def find_one_def)

theorem update_one_no_match_witness:
  "find_docs (Some [(''_id'', VStr ''nonexistent'')]) [(VStr ''a'', [(''p'', VList [])])] = Inr [] \<and>
   update_one (Some [(''_id'', VStr ''nonexistent'')]) [(''$push'', VDict [(''p'', VInt 1)])]
     [(VStr ''a'', [(''p'', VList [])])] = (Inr 0, [(VStr ''a'', [(''p'', VList [])])])"
proof -
  have h: "find_docs (Some [(''_id'', VStr ''nonexistent'')]) [(VStr ''a'', [(''p'', VList [])])] = Inr []"
    by (simp add: find_docs_def)
  show ?thesis using h update_one_no_match [OF h] by simp
qed

section \<open>Queries on dotted keys\<close>



lemma resolve_append:
  "resolve (ns @ ns') v = (case resolve ns v of None \<Rightarrow> None | Some w \<Rightarrow> resolve ns' w)"
  by (induction ns arbitrary: v) (auto split: pyval.splits option.splits)




text \<open>
  Claim C9. A clause whose key contains a dot and whose value is not a dictionary with
  an \<^verbatim>\<open>"$in"\<close> entry compares nothing: where the descent succeeds the flag stays as it
  was, so a query of that one clause returns every document in which the path resolves,
  and only those.
\<close>

theorem dotted_plain_value_passes:
  assumes "CHR ''.'' \<in> set q_key" and "in_candidates q_value = None"
  shows "(resolve (split_dot q_key) (VDict val) \<noteq> None \<longrightarrow>
            match_clauses key val ((q_key, q_value) # qs) m = match_clauses key val qs m) \<and>
         find_docs (Some [(q_key, q_value)]) s =
           Inr (map (\<lambda>(k, v). with_id k v)
                 (filter (\<lambda>(k, v). resolve (split_dot q_key) (VDict v) \<noteq> None) s))"
proof -
  from assms have nid: "q_key \<noteq> ''_id''" by auto
  have one: "match_clauses k v [(q_key, q_value)] True =
               Inr (resolve (split_dot q_key) (VDict v) \<noteq> None)" for k v
    using assms nid by (auto split: option.splits)
  have rows: "find_rows [(q_key, q_value)] s =
           Inr (map (\<lambda>(k, v). with_id k v)
                 (filter (\<lambda>(k, v). resolve (split_dot q_key) (VDict v) \<noteq> None) s))"
  proof (induction s)
    case Nil
    show ?case by simp
  next
    case (Cons a s)
    obtain k v where a: "a = (k, v)" by (cases a)
    show ?case unfolding a using Cons one [of k v] by (simp del: match_clauses.simps)
  qed
  show ?thesis
    using assms nid rows by (auto simp: find_docs_def)
qed

theorem dotted_plain_value_passes_witness:
  "CHR ''.'' \<in> set ''a.b'' \<and> in_candidates (VStr ''no such value'') = None \<and>
   resolve (split_dot ''a.b'') (VDict [(''a'', VDict [(''b'', VInt 7)])]) \<noteq> None \<and>
   match_clauses (VStr ''x'') [(''a'', VDict [(''b'', VInt 7)])]
     [(''a.b'', VStr ''no such value'')] True = Inr True \<and>
   find_docs (Some [(''a.b'', VStr ''no such value'')])
     [(VStr ''x'', [(''a'', VDict [(''b'', VInt 7)])]), (VStr ''y'', [(''a'', VInt 7)])] =
     Inr [[(''_id'', VStr ''x''), (''a'', VDict [(''b'', VInt 7)])]]"
proof -
  have d: "CHR ''.'' \<in> set ''a.b''" by simp
  have c: "in_candidates (VStr ''no such value'') = None" by (simp add: in_candidates_def)
  have r: "resolve (split_dot ''a.b'') (VDict [(''a'', VDict [(''b'', VInt 7)])]) \<noteq> None" by simp
  note t = dotted_plain_value_passes [OF d c, where val = "[(''a'', VDict [(''b'', VInt 7)])]"
      and key = "VStr ''x''" and qs = "[]" and m = True
      and s = "[(VStr ''x'', [(''a'', VDict [(''b'', VInt 7)])]), (VStr ''y'', [(''a'', VInt 7)])]"]
  from t r have a1: "match_clauses (VStr ''x'') [(''a'', VDict [(''b'', VInt 7)])]
     [(''a.b'', VStr ''no such value'')] True = match_clauses (VStr ''x'') [(''a'', VDict [(''b'', VInt 7)])] [] True"
    by blast
  from t have a2: "find_docs (Some [(''a.b'', VStr ''no such value'')])
     [(VStr ''x'', [(''a'', VDict [(''b'', VInt 7)])]), (VStr ''y'', [(''a'', VInt 7)])] =
     Inr (map (\<lambda>(k, v). with_id k v)
                 (filter (\<lambda>(k, v). resolve (split_dot ''a.b'') (VDict v) \<noteq> None)
        [(VStr ''x'', [(''a'', VDict [(''b'', VInt 7)])]), (VStr ''y'', [(''a'', VInt 7)])]))"
    by blast
  have a3: "find_docs (Some [(''a.b'', VStr ''no such value'')])
     [(VStr ''x'', [(''a'', VDict [(''b'', VInt 7)])]), (VStr ''y'', [(''a'', VInt 7)])] =
     Inr [[(''_id'', VStr ''x''), (''a'', VDict [(''b'', VInt 7)])]]"
    unfolding a2 by (simp add: with_id_def)
  show ?thesis using d c r a1 a3 by simp
qed

section \<open>The pull operator\<close>

lemma map_of_dict_set: "map_of (dict_set d k v) = (map_of d)(k \<mapsto> v)"
  by (induction d) (auto simp: fun_eq_iff)

lemma keys_dict_set_present:
  "map_of d k \<noteq> None \<Longrightarrow> map fst (dict_set d k v) = map fst d"
  by (induction d) auto

lemma remove_first_split:
  "\<exists>x\<in>set xs. py_eq x v \<Longrightarrow>
   \<exists>pre x post. xs = pre @ x # post \<and> py_eq x v \<and> (\<forall>y\<in>set pre. \<not> py_eq y v) \<and>
     remove_first v xs = pre @ post"
proof (induction xs)
  case Nil
  then show ?case by simp
next
  case (Cons a xs)
  show ?case
  proof (cases "py_eq a v")
    case True
    then have "a # xs = [] @ a # xs \<and> py_eq a v \<and> (\<forall>y\<in>set []. \<not> py_eq y v) \<and>
      remove_first v (a # xs) = [] @ xs" by simp
    then show ?thesis by blast
  next
    case False
    with Cons.prems have "\<exists>x\<in>set xs. py_eq x v" by auto
    from Cons.IH [OF this] obtain pre x post where
      h: "xs = pre @ x # post" "py_eq x v" "\<forall>y\<in>set pre. \<not> py_eq y v" "remove_first v xs = pre @ post"
      by blast
    with False have "a # xs = (a # pre) @ x # post \<and> py_eq x v \<and>
      (\<forall>y\<in>set (a # pre). \<not> py_eq y v) \<and> remove_first v (a # xs) = (a # pre) @ post"
      by simp
    then show ?thesis by blast
  qed
qed

lemma update_one_single_pull:
  assumes "find_one query s = Inr (Some d)" and "map_of d ''_id'' = Some doc_id"
    and "store_lookup s doc_id = Inr val"
  shows "update_one query [(''$pull'', VDict [(key, v)])] s =
           (case pull_field key v val of
              Inl e \<Rightarrow> (Inl e, s)
            | Inr d' \<Rightarrow> (Inr 1, store_set s doc_id d'))"
proof -
  from assms(2) have ne: "d \<noteq> []" by auto
  show ?thesis
    using assms ne
    by (simp add: update_one_def run_op_def on_doc_def split: sum.splits)
qed

text \<open>
  Claim C7. One pair of a \<^verbatim>\<open>"$pull"\<close> operator, on the fields of the document it is
  applied to. When the field holds a list with an element equal to the value, the first
  such element is removed and nothing else changes: the elements before and after it,
  the other fields and the order of the fields stay. When the field is absent, or holds a
  list without the value, the fields are returned as they were. \<^verbatim>\<open>update_one\<close> with
  that pair writes the outcome back under the id of the matched document and reports one
  document modified.
\<close>

theorem pull_removes_first_occurrence:
  "(map_of d key = Some (VList xs) \<and> (\<exists>x\<in>set xs. py_eq x v) \<longrightarrow>
      (\<exists>pre x post d'. xs = pre @ x # post \<and> py_eq x v \<and> (\<forall>y\<in>set pre. \<not> py_eq y v) \<and>
         pull_field key v d = Inr d' \<and> map fst d' = map fst d \<and>
         map_of d' = (map_of d)(key \<mapsto> VList (pre @ post)))) \<and>
   (map_of d key = None \<longrightarrow> pull_field key v d = Inr d) \<and>
   (map_of d key = Some (VList xs) \<and> \<not> (\<exists>x\<in>set xs. py_eq x v) \<longrightarrow> pull_field key v d = Inr d) \<and>
   (find_one query s = Inr (Some m) \<and> map_of m ''_id'' = Some doc_id \<and>
    store_lookup s doc_id = Inr d \<longrightarrow>
      update_one query [(''$pull'', VDict [(key, v)])] s =
        (case pull_field key v d of
           Inl e \<Rightarrow> (Inl e, s)
         | Inr d' \<Rightarrow> (Inr 1, store_set s doc_id d')))"
proof (intro conjI impI)
  assume a: "map_of d key = Some (VList xs) \<and> (\<exists>x\<in>set xs. py_eq x v)"
  then obtain pre x post where
    h: "xs = pre @ x # post" "py_eq x v" "\<forall>y\<in>set pre. \<not> py_eq y v" "remove_first v xs = pre @ post"
    using remove_first_split by blast
  from a have hit: "list_ex (\<lambda>y. py_eq y v) xs" by (simp add: list_ex_iff)
  have p: "pull_field key v d = Inr (dict_set d key (VList (pre @ post)))"
    using a hit h(4) by (simp add: pull_field_def)
  from a have k: "map fst (dict_set d key (VList (pre @ post))) = map fst d"
    by (simp add: keys_dict_set_present)
  show "\<exists>pre x post d'. xs = pre @ x # post \<and> py_eq x v \<and> (\<forall>y\<in>set pre. \<not> py_eq y v) \<and>
         pull_field key v d = Inr d' \<and> map fst d' = map fst d \<and>
         map_of d' = (map_of d)(key \<mapsto> VList (pre @ post))"
    using h(1,2,3) p k map_of_dict_set by blast
next
  assume "map_of d key = None"
  then show "pull_field key v d = Inr d" by (simp add: pull_field_def)
next
  assume "map_of d key = Some (VList xs) \<and> \<not> (\<exists>x\<in>set xs. py_eq x v)"
  then show "pull_field key v d = Inr d" by (simp add: pull_field_def list_ex_iff)
next
  assume "find_one query s = Inr (Some m) \<and> map_of m ''_id'' = Some doc_id \<and>
    store_lookup s doc_id = Inr d"
  then show "update_one query [(''$pull'', VDict [(key, v)])] s =
        (case pull_field key v d of
           Inl e \<Rightarrow> (Inl e, s)
         | Inr d' \<Rightarrow> (Inr 1, store_set s doc_id d'))"
    using update_one_single_pull by blast
qed

theorem pull_removes_first_occurrence_witness:
  "map_of [(''participants'', VList [VStr ''a'', VStr ''b'', VStr ''a''])] ''participants'' =
     Some (VList [VStr ''a'', VStr ''b'', VStr ''a'']) \<and>
   (\<exists>x\<in>set [VStr ''a'', VStr ''b'', VStr ''a'']. py_eq x (VStr ''a'')) \<and>
   pull_field ''participants'' (VStr ''a'')
     [(''participants'', VList [VStr ''a'', VStr ''b'', VStr ''a''])] =
     Inr [(''participants'', VList [VStr ''b'', VStr ''a''])] \<and>
   map_of [(''participants'', VList [VStr ''a'', VStr ''b'', VStr ''a''])] ''other'' = None \<and>
   pull_field ''other'' (VStr ''a'') [(''participants'', VList [VStr ''a'', VStr ''b'', VStr ''a''])] =
     Inr [(''participants'', VList [VStr ''a'', VStr ''b'', VStr ''a''])] \<and>
   \<not> (\<exists>x\<in>set [VStr ''a'', VStr ''b'', VStr ''a'']. py_eq x (VStr ''c'')) \<and>
   pull_field ''participants'' (VStr ''c'')
     [(''participants'', VList [VStr ''a'', VStr ''b'', VStr ''a''])] =
     Inr [(''participants'', VList [VStr ''a'', VStr ''b'', VStr ''a''])] \<and>
   find_one (Some [(''_id'', VStr ''i'')])
     [(VStr ''i'', [(''participants'', VList [VStr ''a'', VStr ''b'', VStr ''a''])])] =
     Inr (Some [(''_id'', VStr ''i''), (''participants'', VList [VStr ''a'', VStr ''b'', VStr ''a''])]) \<and>
   store_lookup [(VStr ''i'', [(''participants'', VList [VStr ''a'', VStr ''b'', VStr ''a''])])]
     (VStr ''i'') = Inr [(''participants'', VList [VStr ''a'', VStr ''b'', VStr ''a''])] \<and>
   update_one (Some [(''_id'', VStr ''i'')]) [(''$pull'', VDict [(''participants'', VStr ''a'')])]
     [(VStr ''i'', [(''participants'', VList [VStr ''a'', VStr ''b'', VStr ''a''])])] =
     (Inr 1, [(VStr ''i'', [(''participants'', VList [VStr ''b'', VStr ''a''])])])"
proof -
  let ?xs = "[VStr ''a'', VStr ''b'', VStr ''a'']"
  let ?d = "[(''participants'', VList ?xs)]"
  let ?s = "[(VStr ''i'', ?d)]"
  let ?q = "Some [(''_id'', VStr ''i'')]"
  let ?m = "[(''_id'', VStr ''i''), (''participants'', VList ?xs)]"
  have f: "map_of ?d ''participants'' = Some (VList ?xs)" by simp
  have e: "\<exists>x\<in>set ?xs. py_eq x (VStr ''a'')" by simp
  have o: "map_of ?d ''other'' = None" by simp
  have n: "\<not> (\<exists>x\<in>set ?xs. py_eq x (VStr ''c''))" by simp
  have fo: "find_one ?q ?s = Inr (Some ?m)"
    by (simp add: find_one_def find_docs_def with_id_def)
  have i: "map_of ?m ''_id'' = Some (VStr ''i'')" by simp
  have l: "store_lookup ?s (VStr ''i'') = Inr ?d" by simp
  have "\<exists>pre x post d'. ?xs = pre @ x # post \<and> py_eq x (VStr ''a'') \<and>
          (\<forall>y\<in>set pre. \<not> py_eq y (VStr ''a'')) \<and>
          pull_field ''participants'' (VStr ''a'') ?d = Inr d' \<and> map fst d' = map fst ?d \<and>
          map_of d' = (map_of ?d)(''participants'' \<mapsto> VList (pre @ post))"
    by (rule pull_removes_first_occurrence [where d = ?d and key = "''participants''"
          and xs = ?xs and v = "VStr ''a''", THEN conjunct1, rule_format]) (intro conjI f e)
  then obtain d' where "pull_field ''participants'' (VStr ''a'') ?d = Inr d'" by blast
  then have a1: "pull_field ''participants'' (VStr ''a'') ?d =
      Inr [(''participants'', VList [VStr ''b'', VStr ''a''])]"
    by (simp add: pull_field_def)
  have a2: "pull_field ''other'' (VStr ''a'') ?d = Inr ?d"
    by (rule pull_removes_first_occurrence [where d = ?d and key = "''other''"
          and v = "VStr ''a''", THEN conjunct2, THEN conjunct1, rule_format]) (rule o)
  have a3: "pull_field ''participants'' (VStr ''c'') ?d = Inr ?d"
    by (rule pull_removes_first_occurrence [where d = ?d and key = "''participants''"
          and xs = ?xs and v = "VStr ''c''", THEN conjunct2, THEN conjunct2, THEN conjunct1,
          rule_format]) (intro conjI f n)
  have a4: "update_one ?q [(''$pull'', VDict [(''participants'', VStr ''a'')])] ?s =
        (case pull_field ''participants'' (VStr ''a'') ?d of
           Inl e \<Rightarrow> (Inl e, ?s)
         | Inr d' \<Rightarrow> (Inr 1, store_set ?s (VStr ''i'') d'))"
    by (rule pull_removes_first_occurrence [where query = ?q and s = ?s and m = ?m
          and doc_id = "VStr ''i''" and d = ?d and key = "''participants''" and v = "VStr ''a''",
          THEN conjunct2, THEN conjunct2, THEN conjunct2, rule_format]) (intro conjI fo i l)
  have a5: "update_one ?q [(''$pull'', VDict [(''participants'', VStr ''a'')])] ?s =
     (Inr 1, [(VStr ''i'', [(''participants'', VList [VStr ''b'', VStr ''a''])])])"
    unfolding a4 a1 by simp
  show ?thesis by (intro conjI f e a1 o a2 n a3 fo l a5)
qed

section \<open>Seeding a collection that has documents\<close>

lemma count_all: "count_documents (Some []) s = Inr (length s)"
  by (simp add: count_documents_def find_docs_def find_rows_no_clause)

lemma init_if_empty_nonempty: "s \<noteq> [] \<Longrightarrow> init_if_empty seed records s = (None, s)"
  by (simp add: init_if_empty_def count_all)

text \<open>
  Claim C8. \<^verbatim>\<open>init_database\<close> leaves a collection that holds a document as it is,
  whatever the seed records are and whatever happens to the other collection: no seed
  record is inserted or merged, a second call changes nothing either, and the count
  stays. With both collections non-empty the call returns normally and nothing changed.
\<close>

theorem init_database_nonempty_noop:
  "(activities_data db \<noteq> [] \<longrightarrow>
      activities_data (snd (init_database ia it db)) = activities_data db \<and>
      activities_data (snd (init_database ia it (snd (init_database ia it db)))) = activities_data db) \<and>
   (teachers_data db \<noteq> [] \<longrightarrow>
      teachers_data (snd (init_database ia it db)) = teachers_data db \<and>
      teachers_data (snd (init_database ia it (snd (init_database ia it db)))) = teachers_data db) \<and>
   (activities_data db \<noteq> [] \<and> teachers_data db \<noteq> [] \<longrightarrow> init_database ia it db = (None, db)) \<and>
   (s \<noteq> [] \<longrightarrow> init_if_empty seed records s = (None, s) \<and>
      count_documents (Some []) (snd (init_if_empty seed records s)) = count_documents (Some []) s)"
proof -
  have a: "activities_data (snd (init_database ia it d)) = activities_data d"
    if "activities_data d \<noteq> []" for d
    using that by (auto simp: init_database_def init_if_empty_nonempty split: prod.splits option.splits)
  have t: "teachers_data (snd (init_database ia it d)) = teachers_data d"
    if "teachers_data d \<noteq> []" for d
    using that by (auto simp: init_database_def init_if_empty_nonempty split: prod.splits option.splits)
  have b: "init_database ia it db = (None, db)"
    if "activities_data db \<noteq> [] \<and> teachers_data db \<noteq> []"
    using that by (simp add: init_database_def init_if_empty_nonempty)
  show ?thesis using a t b by (simp add: init_if_empty_nonempty)
qed

theorem init_database_nonempty_noop_witness:
  "activities_data \<lparr>activities_data = [(VStr ''Chess Club'', [])],
                     teachers_data = [(VStr ''mchen'', [])]\<rparr> \<noteq> [] \<and>
   teachers_data \<lparr>activities_data = [(VStr ''Chess Club'', [])],
                   teachers_data = [(VStr ''mchen'', [])]\<rparr> \<noteq> [] \<and>
   init_database [(''Art Club'', [])] [[(''username'', VStr ''principal'')]]
     \<lparr>activities_data = [(VStr ''Chess Club'', [])], teachers_data = [(VStr ''mchen'', [])]\<rparr> =
     (None, \<lparr>activities_data = [(VStr ''Chess Club'', [])], teachers_data = [(VStr ''mchen'', [])]\<rparr>) \<and>
   [(VStr ''mchen'', [])] \<noteq> ([] :: store) \<and>
   init_if_empty seed_teachers [[(''username'', VStr ''principal'')]] [(VStr ''mchen'', [])] =
     (None, [(VStr ''mchen'', [])])"
  using init_database_nonempty_noop
          [where db = "\<lparr>activities_data = [(VStr ''Chess Club'', [])],
                         teachers_data = [(VStr ''mchen'', [])]\<rparr>"
             and ia = "[(''Art Club'', [])]" and it = "[[(''username'', VStr ''principal'')]]"
             and s = "[(VStr ''mchen'', [])]" and seed = seed_teachers
             and records = "[[(''username'', VStr ''principal'')]]"]
  by simp

section \<open>Insertion, then lookup by id\<close>

lemma py_eq_hashable_euclid:
  "hashable a \<Longrightarrow> hashable b \<Longrightarrow> hashable c \<Longrightarrow> py_eq a c \<Longrightarrow> py_eq b c \<Longrightarrow> py_eq a b"
  by (cases a; cases b; cases c) (auto split: if_splits)

lemma py_eq_hashable_refl: "hashable a \<Longrightarrow> py_eq a a"
  by (cases a) auto

lemma store_set_filter:
  assumes "store_ok s" and "hashable i"
  shows "\<exists>k. py_eq k i \<and> filter (\<lambda>(k, v). py_eq k i) (store_set s i d) = [(k, d)]"
  using assms
proof (induction s)
  case Nil
  then show ?case by (simp add: py_eq_hashable_refl)
next
  case (Cons a s)
  obtain k' d' where a: "a = (k', d')" by (cases a)
  from Cons.prems have ok: "store_ok s" and hk: "hashable k'"
    and hs: "\<forall>x\<in>set s. hashable (fst x)" and nk: "\<forall>x\<in>set s. \<not> py_eq (fst x) k'"
    by (auto simp: store_ok_def a list_all_iff list_ex_iff)
  show ?case
  proof (cases "py_eq k' i")
    case True
    have "\<not> py_eq (fst x) i" if "x \<in> set s" for x
      using that hs nk hk Cons.prems(2) True py_eq_hashable_euclid by blast
    then have "filter (\<lambda>(k, v). py_eq k i) s = []"
      by (auto simp: filter_empty_conv)
    with True show ?thesis by (auto simp: a)
  next
    case False
    with Cons.IH [OF ok Cons.prems(2)] show ?thesis by (simp add: a)
  qed
qed

lemma dict_set_fresh: "k \<notin> fst ` set d \<Longrightarrow> dict_set d k v = d @ [(k, v)]"
  by (induction d) auto

lemma foldl_dict_set_fresh:
  "distinct (map fst val) \<Longrightarrow> fst ` set val \<inter> fst ` set acc = {} \<Longrightarrow>
   foldl (\<lambda>d (k, v). dict_set d k v) acc val = acc @ val"
proof (induction val arbitrary: acc)
  case Nil
  then show ?case by simp
next
  case (Cons a val)
  obtain k v where a: "a = (k, v)" by (cases a)
  from Cons.prems have f: "k \<notin> fst ` set acc" by (auto simp: a)
  from Cons.prems have "fst ` set val \<inter> fst ` set (acc @ [(k, v)]) = {}"
    by (auto simp: a)
  with Cons.prems Cons.IH [of "acc @ [(k, v)]"] f show ?case
    by (simp add: a dict_set_fresh)
qed

lemma with_id_fresh:
  "distinct (map fst val) \<Longrightarrow> ''_id'' \<notin> fst ` set val \<Longrightarrow> with_id key val = (''_id'', key) # val"
  using foldl_dict_set_fresh [of val "[(''_id'', key)]"] by (auto simp: with_id_def)

lemma dict_del_keys: "fst ` set (dict_del d k) = fst ` set d - {k}"
  by (auto simp: dict_del_def image_iff)

lemma dict_del_distinct: "distinct (map fst d) \<Longrightarrow> distinct (map fst (dict_del d k))"
  by (simp add: dict_del_def distinct_map_filter)

lemma map_of_dict_del: "map_of (dict_del d k) f = (if f = k then None else map_of d f)"
  by (induction d) (auto simp: dict_del_def)

lemma find_rows_by_id:
  "find_rows [(''_id'', i)] s = Inr (map (\<lambda>(k, v). with_id k v) (filter (\<lambda>(k, v). py_eq k i) s))"
  by (induction s) auto

lemma py_eq_refl: "wf_val v \<Longrightarrow> py_eq v v"
proof (induction v)
  case (VList xs)
  then have "\<forall>x\<in>set xs. py_eq x x" by (auto simp: list_all_iff)
  then show ?case by (simp add: list_all2_map1 list_all2_same)
next
  case (VDict kvs)
  have "case map_of kvs k of None \<Rightarrow> False | Some w \<Rightarrow> py_eq v w" if "(k, v) \<in> set kvs" for k v
  proof -
    from VDict.prems that have "map_of kvs k = Some v" by simp
    moreover from VDict.prems that have "wf_val v" by (auto simp: list_all_iff)
    with VDict.IH that have "py_eq v v" by fastforce
    ultimately show ?thesis by simp
  qed
  then show ?case by (auto simp: list_all_iff)
qed simp_all

lemma dict_del_length:
  "distinct (map fst d) \<Longrightarrow> map_of d k = Some v \<Longrightarrow> Suc (length (dict_del d k)) = length d"
proof (induction d)
  case Nil
  then show ?case by simp
next
  case (Cons a d)
  obtain k' v' where a: "a = (k', v')" by (cases a)
  show ?case
  proof (cases "k' = k")
    case True
    with Cons.prems have "k \<notin> fst ` set d" by (auto simp: a)
    then have "filter (\<lambda>(k', v). k' \<noteq> k) d = d" by (force simp: filter_id_conv)
    with True show ?thesis by (simp add: a dict_del_def)
  next
    case False
    with Cons show ?thesis by (simp add: a dict_del_def)
  qed
qed

lemma py_eq_with_id:
  assumes "wf_val (VDict D)" and "map_of D ''_id'' = Some I" and "py_eq k I"
  shows "py_eq (VDict ((''_id'', k) # dict_del D ''_id'')) (VDict D)"
proof -
  from assms(1) have dist: "distinct (map fst D)" by simp
  have len: "length ((''_id'', k) # dict_del D ''_id'') = length D"
    using dict_del_length [OF dist assms(2)] by simp
  have "case map_of D f of None \<Rightarrow> False | Some w \<Rightarrow> py_eq v w"
    if "(f, v) \<in> set (dict_del D ''_id'')" for f v
  proof -
    from that have m: "(f, v) \<in> set D" by (simp add: dict_del_def)
    with dist have "map_of D f = Some v" by simp
    moreover from assms(1) m have "wf_val v" by (auto simp: list_all_iff)
    then have "py_eq v v" by (rule py_eq_refl)
    ultimately show ?thesis by simp
  qed
  then show ?thesis using len assms(2,3) by (auto simp: list_all_iff)
qed

text \<open>
  Claim C1, as stated, fails where the id is unhashable: with the id \<^verbatim>\<open>["a"]\<close>
  \<^verbatim>\<open>insert_one\<close> raises \<^verbatim>\<open>TypeError\<close> at \<^verbatim>\<open>self.data[doc_id] = doc\<close>, nothing is
  stored, and \<^verbatim>\<open>find_one\<close> on that id returns \<^verbatim>\<open>None\<close>.
\<close>

theorem insert_one_unhashable_id_counterexample:
  "insert_one [(''_id'', VList [VStr ''a'']), (''name'', VStr ''Chess Club'')] [] =
     (Inl TypeError, []) \<and>
   find_one (Some [(''_id'', VList [VStr ''a''])])
     (snd (insert_one [(''_id'', VList [VStr ''a'']), (''name'', VStr ''Chess Club'')] [])) =
     Inr None"
  by (simp add: insert_one_def find_one_def find_docs_def)

text \<open>
  Claim C1, amended. For a document \<open>D\<close> whose \<^verbatim>\<open>"_id"\<close> holds a hashable value
  \<open>I\<close>, \<^verbatim>\<open>insert_one\<close> returns \<open>I\<close> and \<^verbatim>\<open>find_one\<close> on \<^verbatim>\<open>{"_id": I}\<close> then returns
  a document that is equal to \<open>D\<close> under \<^verbatim>\<open>==\<close>: its \<^verbatim>\<open>"_id"\<close> is there and equals
  \<open>I\<close>, and every other field has the value it has in \<open>D\<close>.
\<close>

theorem insert_one_then_find_one:
  assumes "wf_val (VDict D)" and "map_of D ''_id'' = Some I" and "hashable I"
    and "store_ok s"
  shows "\<exists>k r. fst (insert_one D s) = Inr I \<and>
           find_one (Some [(''_id'', I)]) (snd (insert_one D s)) = Inr (Some r) \<and>
           py_eq (VDict r) (VDict D) \<and>
           map_of r ''_id'' = Some k \<and> py_eq k I \<and>
           (\<forall>f. f \<noteq> ''_id'' \<longrightarrow> map_of r f = map_of D f)"
proof -
  let ?fields = "dict_del D ''_id''"
  from assms(1) have dist: "distinct (map fst D)" by simp
  have ins: "insert_one D s = (Inr I, store_set s I ?fields)"
    using assms(2,3) by (simp add: insert_one_def)
  obtain k where k: "py_eq k I"
    and f: "filter (\<lambda>(k, v). py_eq k I) (store_set s I ?fields) = [(k, ?fields)]"
    using store_set_filter [OF assms(4,3)] by blast
  have w: "with_id k ?fields = (''_id'', k) # ?fields"
    using dist by (intro with_id_fresh) (simp_all add: dict_del_distinct dict_del_keys)
  have fo: "find_one (Some [(''_id'', I)]) (store_set s I ?fields) =
              Inr (Some ((''_id'', k) # ?fields))"
    by (simp add: find_one_def find_docs_def find_rows_by_id f w)
  have eq: "py_eq (VDict ((''_id'', k) # ?fields)) (VDict D)"
    using assms(1,2) k by (rule py_eq_with_id)
  have fl: "\<forall>f. f \<noteq> ''_id'' \<longrightarrow> map_of ((''_id'', k) # ?fields) f = map_of D f"
    by (simp add: map_of_dict_del)
  have "fst (insert_one D s) = Inr I \<and>
        find_one (Some [(''_id'', I)]) (snd (insert_one D s)) = Inr (Some ((''_id'', k) # ?fields)) \<and>
        py_eq (VDict ((''_id'', k) # ?fields)) (VDict D) \<and>
        map_of ((''_id'', k) # ?fields) ''_id'' = Some k \<and> py_eq k I \<and>
        (\<forall>f. f \<noteq> ''_id'' \<longrightarrow> map_of ((''_id'', k) # ?fields) f = map_of D f)"
    using ins fo eq k fl by simp
  then show ?thesis by blast
qed

theorem insert_one_then_find_one_witness:
  "wf_val (VDict [(''name'', VStr ''Chess Club''), (''_id'', VBool True), (''max'', VInt 12)]) \<and>
   map_of [(''name'', VStr ''Chess Club''), (''_id'', VBool True), (''max'', VInt 12)] ''_id'' =
     Some (VBool True) \<and>
   hashable (VBool True) \<and>
   store_ok [(VStr ''a'', []), (VInt 1, [(''old'', VNone)])] \<and>
   fst (insert_one [(''name'', VStr ''Chess Club''), (''_id'', VBool True), (''max'', VInt 12)]
          [(VStr ''a'', []), (VInt 1, [(''old'', VNone)])]) = Inr (VBool True) \<and>
   find_one (Some [(''_id'', VBool True)])
     (snd (insert_one [(''name'', VStr ''Chess Club''), (''_id'', VBool True), (''max'', VInt 12)]
            [(VStr ''a'', []), (VInt 1, [(''old'', VNone)])])) =
     Inr (Some [(''_id'', VInt 1), (''name'', VStr ''Chess Club''), (''max'', VInt 12)])"
proof -
  have h1: "wf_val (VDict [(''name'', VStr ''Chess Club''), (''_id'', VBool True), (''max'', VInt 12)])"
    by simp
  have h2: "map_of [(''name'', VStr ''Chess Club''), (''_id'', VBool True), (''max'', VInt 12)] ''_id'' =
     Some (VBool True)" by simp
  have h3: "hashable (VBool True)" by simp
  have h4: "store_ok [(VStr ''a'', []), (VInt 1, [(''old'', VNone)])]"
    by (simp add: store_ok_def)
  from insert_one_then_find_one [OF h1 h2 h3 h4] obtain k r where
    a: "fst (insert_one [(''name'', VStr ''Chess Club''), (''_id'', VBool True), (''max'', VInt 12)]
          [(VStr ''a'', []), (VInt 1, [(''old'', VNone)])]) = Inr (VBool True)"
    and b: "find_one (Some [(''_id'', VBool True)])
     (snd (insert_one [(''name'', VStr ''Chess Club''), (''_id'', VBool True), (''max'', VInt 12)]
            [(VStr ''a'', []), (VInt 1, [(''old'', VNone)])])) = Inr (Some r)"
    by blast
  have c: "find_one (Some [(''_id'', VBool True)])
     (snd (insert_one [(''name'', VStr ''Chess Club''), (''_id'', VBool True), (''max'', VInt 12)]
            [(VStr ''a'', []), (VInt 1, [(''old'', VNone)])])) =
     Inr (Some [(''_id'', VInt 1), (''name'', VStr ''Chess Club''), (''max'', VInt 12)])"
    by (simp add: insert_one_def dict_del_def find_one_def find_docs_def with_id_def)
  show ?thesis using h1 h2 h3 h4 a c by blast
qed

section \<open>Updates that match\<close>

lemma with_id_has_id: "\<exists>i. map_of (with_id key val) ''_id'' = Some i"
proof -
  have "\<exists>i. map_of acc ''_id'' = Some i \<Longrightarrow>
        \<exists>i. map_of (foldl (\<lambda>d (k, v). dict_set d k v) acc val) ''_id'' = Some i" for acc
    by (induction val arbitrary: acc) (auto simp: map_of_dict_set)
  then show ?thesis by (simp add: with_id_def)
qed

lemma find_rows_has_id:
  "find_rows q s = Inr rs \<Longrightarrow> r \<in> set rs \<Longrightarrow> \<exists>i. map_of r ''_id'' = Some i"
  by (induction s arbitrary: rs) (auto simp: with_id_has_id split: sum.splits if_splits)

lemma find_one_has_id:
  assumes "find_one query s = Inr (Some d)"
  shows "\<exists>i. map_of d ''_id'' = Some i"
proof -
  from assms obtain rs where rs: "find_docs query s = Inr rs" and d: "d \<in> set rs"
    by (auto simp: find_one_def split: sum.splits list.splits)
  show ?thesis
  proof (cases query)
    case None
    with rs d show ?thesis by (auto simp: find_docs_def with_id_has_id)
  next
    case (Some q)
    with rs d show ?thesis by (auto simp: find_docs_def dest: find_rows_has_id)
  qed
qed

lemma store_lookup_set:
  "store_lookup s i = Inr d \<Longrightarrow> store_lookup (store_set s i d') i = Inr d'"
  by (induction s) (auto split: if_splits)

lemma store_set_same: "store_lookup s i = Inr d \<Longrightarrow> store_set s i d = s"
  by (induction s) (auto split: if_splits)

lemma push_field_ok:
  assumes "field_ok d key"
  shows "\<exists>d'. push_field key v d = Inr d' \<and> (\<forall>k. field_ok d k \<longrightarrow> field_ok d' k)"
proof (cases "map_of d key")
  case None
  then show ?thesis by (auto simp: push_field_def field_ok_def map_of_dict_set)
next
  case (Some cur)
  with assms obtain xs where "cur = VList xs" by (cases cur) (auto simp: field_ok_def)
  with Some show ?thesis by (auto simp: push_field_def field_ok_def map_of_dict_set)
qed

lemma pull_field_ok:
  assumes "field_ok d key"
  shows "\<exists>d'. pull_field key v d = Inr d' \<and> (\<forall>k. field_ok d k \<longrightarrow> field_ok d' k)"
proof (cases "map_of d key")
  case None
  then show ?thesis by (auto simp: pull_field_def)
next
  case (Some cur)
  with assms obtain xs where "cur = VList xs" by (cases cur) (auto simp: field_ok_def)
  with Some show ?thesis by (auto simp: pull_field_def field_ok_def map_of_dict_set)
qed

lemma run_items_ok:
  assumes f: "\<And>key v d. field_ok d key \<Longrightarrow>
                \<exists>d'. f key v d = Inr d' \<and> (\<forall>k. field_ok d k \<longrightarrow> field_ok d' k)"
  shows "store_lookup s doc_id = Inr d \<Longrightarrow> list_all (\<lambda>(k, v). field_ok d k) items \<Longrightarrow>
         \<exists>s' d'. run_items f doc_id items s = (None, s') \<and> store_lookup s' doc_id = Inr d' \<and>
                 (\<forall>k. field_ok d k \<longrightarrow> field_ok d' k)"
proof (induction items arbitrary: s d)
  case Nil
  then show ?case by auto
next
  case (Cons a items)
  obtain key v where a: "a = (key, v)" by (cases a)
  from Cons.prems have ok: "field_ok d key" and rest: "list_all (\<lambda>(k, v). field_ok d k) items"
    by (auto simp: a)
  from f [OF ok] obtain d1 where d1: "f key v d = Inr d1"
    and keep: "\<forall>k. field_ok d k \<longrightarrow> field_ok d1 k" by blast
  let ?s1 = "store_set s doc_id d1"
  have step: "on_doc (f key v) doc_id s = Inr ?s1"
    using Cons.prems(1) d1 by (simp add: on_doc_def)
  have l1: "store_lookup ?s1 doc_id = Inr d1"
    using Cons.prems(1) by (rule store_lookup_set)
  have r1: "list_all (\<lambda>(k, v). field_ok d1 k) items"
    using rest keep by (auto simp: list_all_iff)
  from Cons.IH [OF l1 r1] obtain s' d' where
    "run_items f doc_id items ?s1 = (None, s')" "store_lookup s' doc_id = Inr d'"
    "\<forall>k. field_ok d1 k \<longrightarrow> field_ok d' k" by blast
  with step keep show ?case by (auto simp: a)
qed

lemma run_op_ok:
  assumes f: "\<And>key v d. field_ok d key \<Longrightarrow>
                \<exists>d'. f key v d = Inr d' \<and> (\<forall>k. field_ok d k \<longrightarrow> field_ok d' k)"
    and "store_lookup s doc_id = Inr d" and "op_ok name update d"
  shows "\<exists>s' d'. run_op name f doc_id update s = (None, s') \<and> store_lookup s' doc_id = Inr d' \<and>
                 (\<forall>k. field_ok d k \<longrightarrow> field_ok d' k)"
proof (cases "map_of update name")
  case None
  with assms(2) show ?thesis by (auto simp: run_op_def)
next
  case (Some arg)
  with assms(3) obtain items where arg: "arg = VDict items"
    and ok: "list_all (\<lambda>(k, v). field_ok d k) items"
    by (cases arg) (auto simp: op_ok_def)
  from run_items_ok [of f, OF f assms(2) ok] Some arg show ?thesis
    by (simp add: run_op_def)
qed

lemma op_ok_mono:
  "op_ok name update d \<Longrightarrow> (\<forall>k. field_ok d k \<longrightarrow> field_ok d' k) \<Longrightarrow> op_ok name update d'"
  by (auto simp: op_ok_def list_all_iff split: option.splits pyval.splits)

text \<open>
  Claim C10, as stated, fails for an update whose operator raises: \<^verbatim>\<open>"$push"\<close> on a
  field that holds a number matches the document and then raises
  \<^verbatim>\<open>AttributeError\<close> at \<^verbatim>\<open>append\<close>, so no handle is returned.
\<close>

theorem update_one_push_on_number_counterexample:
  "find_one (Some [(''_id'', VStr ''a'')]) [(VStr ''a'', [(''participants'', VInt 5)])] =
     Inr (Some [(''_id'', VStr ''a''), (''participants'', VInt 5)]) \<and>
   update_one (Some [(''_id'', VStr ''a'')]) [(''$push'', VDict [(''participants'', VInt 1)])]
     [(VStr ''a'', [(''participants'', VInt 5)])] =
     (Inl AttributeError, [(VStr ''a'', [(''participants'', VInt 5)])])"
  by (simp add: update_one_def find_one_def find_docs_def with_id_def run_op_def on_doc_def
      push_field_def)

text \<open>
  Claim C10, amended. When the query matches a document, \<^verbatim>\<open>update_one\<close> never
  reports a modified count of 0: whenever it returns, the count is 1. It returns 1 and
  leaves the collection as it was when the update names no recognised operator, and
  when it is a \<^verbatim>\<open>"$pull"\<close> of a value that the field's list does not hold. It returns
  1 whenever every field named under \<^verbatim>\<open>"$push"\<close> and \<^verbatim>\<open>"$pull"\<close> is absent from the
  addressed document or holds a list.
\<close>

theorem update_one_match_count:
  assumes "find_one query s = Inr (Some d)"
  shows "(\<forall>n s'. update_one query update s = (Inr n, s') \<longrightarrow> n = 1) \<and>
         (map_of update ''$push'' = None \<and> map_of update ''$pull'' = None \<longrightarrow>
            update_one query update s = (Inr 1, s)) \<and>
         (\<forall>doc_id val key v xs.
            map_of d ''_id'' = Some doc_id \<and> store_lookup s doc_id = Inr val \<and>
            update = [(''$pull'', VDict [(key, v)])] \<and> map_of val key = Some (VList xs) \<and>
            \<not> (\<exists>x\<in>set xs. py_eq x v) \<longrightarrow>
            update_one query update s = (Inr 1, s)) \<and>
         (\<forall>doc_id val.
            map_of d ''_id'' = Some doc_id \<and> store_lookup s doc_id = Inr val \<and>
            op_ok ''$push'' update val \<and> op_ok ''$pull'' update val \<longrightarrow>
            (\<exists>s'. update_one query update s = (Inr 1, s')))"
proof -
  from find_one_has_id [OF assms] obtain i where i: "map_of d ''_id'' = Some i" by auto
  then have ne: "d \<noteq> []" by auto
  have u: "update_one query update s =
      (case run_op ''$push'' push_field i update s of
         (Some e, s1) \<Rightarrow> (Inl e, s1)
       | (None, s1) \<Rightarrow>
           (case run_op ''$pull'' pull_field i update s1 of
              (Some e, s2) \<Rightarrow> (Inl e, s2)
            | (None, s2) \<Rightarrow> (Inr 1, s2)))"
    using assms i ne by (simp add: update_one_def)
  have c1: "\<forall>n s'. update_one query update s = (Inr n, s') \<longrightarrow> n = 1"
    unfolding u by (auto split: prod.splits option.splits)
  have c2: "map_of update ''$push'' = None \<and> map_of update ''$pull'' = None \<longrightarrow>
            update_one query update s = (Inr 1, s)"
    unfolding u by (simp add: run_op_def)
  have c3: "update_one query update s = (Inr 1, s)"
    if h: "map_of d ''_id'' = Some doc_id \<and> store_lookup s doc_id = Inr val \<and>
            update = [(''$pull'', VDict [(key, v)])] \<and> map_of val key = Some (VList xs) \<and>
            \<not> (\<exists>x\<in>set xs. py_eq x v)" for doc_id val key v xs
  proof -
    from h i have e: "doc_id = i" by simp
    from h have p: "pull_field key v val = Inr val"
      by (simp add: pull_field_def list_ex_iff)
    from h have "on_doc (pull_field key v) i s = Inr s"
      unfolding e [symmetric] by (simp add: on_doc_def p store_set_same)
    with h show ?thesis unfolding u by (simp add: run_op_def)
  qed
  have c4: "\<exists>s'. update_one query update s = (Inr 1, s')"
    if h: "map_of d ''_id'' = Some doc_id \<and> store_lookup s doc_id = Inr val \<and>
            op_ok ''$push'' update val \<and> op_ok ''$pull'' update val" for doc_id val
  proof -
    from h i have e: "doc_id = i" by simp
    from h e have l: "store_lookup s i = Inr val" by simp
    from h have o1: "op_ok ''$push'' update val" and o2: "op_ok ''$pull'' update val" by auto
    from run_op_ok [of push_field, OF push_field_ok l o1] obtain s1 d1 where
      r1: "run_op ''$push'' push_field i update s = (None, s1)"
      and l1: "store_lookup s1 i = Inr d1"
      and k1: "\<forall>k. field_ok val k \<longrightarrow> field_ok d1 k" by blast
    have o2': "op_ok ''$pull'' update d1" using o2 k1 by (rule op_ok_mono)
    from run_op_ok [of pull_field, OF pull_field_ok l1 o2'] obtain s2 where
      r2: "run_op ''$pull'' pull_field i update s1 = (None, s2)" by blast
    show ?thesis unfolding u by (simp add: r1 r2)
  qed
  show ?thesis using c1 c2 c3 c4 by blast
qed

theorem update_one_match_count_witness:
  "find_one (Some [(''_id'', VStr ''a'')]) [(VStr ''a'', [(''participants'', VList [VStr ''x''])])] =
     Inr (Some [(''_id'', VStr ''a''), (''participants'', VList [VStr ''x''])]) \<and>
   map_of [] ''$push'' = (None :: pyval option) \<and> map_of [] ''$pull'' = (None :: pyval option) \<and>
   update_one (Some [(''_id'', VStr ''a'')]) []
     [(VStr ''a'', [(''participants'', VList [VStr ''x''])])] =
     (Inr 1, [(VStr ''a'', [(''participants'', VList [VStr ''x''])])]) \<and>
   map_of [(''_id'', VStr ''a''), (''participants'', VList [VStr ''x''])] ''_id'' = Some (VStr ''a'') \<and>
   store_lookup [(VStr ''a'', [(''participants'', VList [VStr ''x''])])] (VStr ''a'') =
     Inr [(''participants'', VList [VStr ''x''])] \<and>
   map_of [(''participants'', VList [VStr ''x''])] ''participants'' = Some (VList [VStr ''x'']) \<and>
   \<not> (\<exists>x\<in>set [VStr ''x'']. py_eq x (VStr ''z'')) \<and>
   update_one (Some [(''_id'', VStr ''a'')]) [(''$pull'', VDict [(''participants'', VStr ''z'')])]
     [(VStr ''a'', [(''participants'', VList [VStr ''x''])])] =
     (Inr 1, [(VStr ''a'', [(''participants'', VList [VStr ''x''])])]) \<and>
   op_ok ''$push'' [(''$push'', VDict [(''participants'', VStr ''y'')])]
     [(''participants'', VList [VStr ''x''])] \<and>
   op_ok ''$pull'' [(''$push'', VDict [(''participants'', VStr ''y'')])]
     [(''participants'', VList [VStr ''x''])] \<and>
   update_one (Some [(''_id'', VStr ''a'')]) [(''$push'', VDict [(''participants'', VStr ''y'')])]
     [(VStr ''a'', [(''participants'', VList [VStr ''x''])])] =
     (Inr 1, [(VStr ''a'', [(''participants'', VList [VStr ''x'', VStr ''y''])])])"
proof -
  let ?q = "Some [(''_id'', VStr ''a'')]"
  let ?val = "[(''participants'', VList [VStr ''x''])]"
  let ?s = "[(VStr ''a'', ?val)]"
  let ?d = "[(''_id'', VStr ''a''), (''participants'', VList [VStr ''x''])]"
  let ?pull = "[(''$pull'', VDict [(''participants'', VStr ''z'')])]"
  let ?push = "[(''$push'', VDict [(''participants'', VStr ''y'')])]"
  have m: "find_one ?q ?s = Inr (Some ?d)"
    by (simp add: find_one_def find_docs_def with_id_def)
  have i: "map_of ?d ''_id'' = Some (VStr ''a'')" by simp
  have l: "store_lookup ?s (VStr ''a'') = Inr ?val" by simp
  have f: "map_of ?val ''participants'' = Some (VList [VStr ''x''])" by simp
  have n: "\<not> (\<exists>x\<in>set [VStr ''x'']. py_eq x (VStr ''z''))" by simp
  have o1: "op_ok ''$push'' ?push ?val" by (simp add: op_ok_def field_ok_def)
  have o2: "op_ok ''$pull'' ?push ?val" by (simp add: op_ok_def)
  have e1: "map_of [] ''$push'' = (None :: pyval option)" by simp
  have e2: "map_of [] ''$pull'' = (None :: pyval option)" by simp
  have a: "update_one ?q [] ?s = (Inr 1, ?s)"
    using update_one_match_count [OF m, of "[]", THEN conjunct2, THEN conjunct1] e1 e2
    by (simp only: simp_thms)
  have b: "update_one ?q ?pull ?s = (Inr 1, ?s)"
    by (rule update_one_match_count [OF m, of ?pull, THEN conjunct2, THEN conjunct2,
          THEN conjunct1, rule_format, of "VStr ''a''" ?val "''participants''" "VStr ''z''"
          "[VStr ''x'']"])
       (intro conjI i l f n refl)
  have "\<exists>s'. update_one ?q ?push ?s = (Inr 1, s')"
    by (rule update_one_match_count [OF m, of ?push, THEN conjunct2, THEN conjunct2,
          THEN conjunct2, rule_format, of "VStr ''a''" ?val])
       (intro conjI i l o1 o2)
  then obtain s' where c: "update_one ?q ?push ?s = (Inr 1, s')" ..
  have "snd (update_one ?q ?push ?s) = [(VStr ''a'', [(''participants'', VList [VStr ''x'', VStr ''y''])])]"
    by (simp add: update_one_def find_one_def find_docs_def with_id_def run_op_def on_doc_def
        push_field_def)
  with c have c': "update_one ?q ?push ?s =
      (Inr 1, [(VStr ''a'', [(''participants'', VList [VStr ''x'', VStr ''y''])])])"
    by simp
  show ?thesis by (intro conjI m e1 e2 a i l f n b o1 o2 c')
qed

section \<open>The days aggregation\<close>

lemma is_str_conv: "is_str v \<longleftrightarrow> (\<exists>t. v = VStr t)"
  by (cases v) auto

lemma list_ex_py_eq_str:
  "list_all is_str acc \<Longrightarrow> is_str day \<Longrightarrow> list_ex (\<lambda>d. py_eq d day) acc \<longleftrightarrow> day \<in> set acc"
  by (force simp: list_all_iff list_ex_iff is_str_conv)

lemma add_days_str:
  "list_all is_str acc \<Longrightarrow> distinct acc \<Longrightarrow> list_all is_str items \<Longrightarrow>
   \<exists>acc'. add_days acc items = Inr acc' \<and> list_all is_str acc' \<and> distinct acc' \<and>
          set acc' = set acc \<union> set items"
proof (induction items arbitrary: acc)
  case Nil
  then show ?case by simp
next
  case (Cons day items)
  from Cons.prems have sd: "is_str day" and si: "list_all is_str items" by auto
  from sd have h: "hashable day" by (auto simp: is_str_conv)
  show ?case
  proof (cases "day \<in> set acc")
    case True
    then have "set_add acc day = Inr acc"
      using Cons.prems(1) sd h by (simp add: set_add_def list_ex_py_eq_str)
    with Cons.IH [OF Cons.prems(1,2) si] True show ?thesis by auto
  next
    case False
    then have a: "set_add acc day = Inr (acc @ [day])"
      using Cons.prems(1) sd h by (simp add: set_add_def list_ex_py_eq_str)
    have "list_all is_str (acc @ [day])" "distinct (acc @ [day])"
      using Cons.prems(1,2) sd False by auto
    from Cons.IH [OF this si] a show ?thesis by auto
  qed
qed

lemma collect_days_str:
  "days_ok s \<Longrightarrow> list_all is_str acc \<Longrightarrow> distinct acc \<Longrightarrow>
   \<exists>acc'. collect_days acc s = Inr acc' \<and> list_all is_str acc' \<and> distinct acc' \<and>
          set acc' = set acc \<union> set (all_days s)"
proof (induction s arbitrary: acc)
  case Nil
  then show ?case by (simp add: all_days_def)
next
  case (Cons a s)
  obtain key val where a: "a = (key, val)" by (cases a)
  from Cons.prems(1) have ok: "days_ok s" by (simp add: days_ok_def)
  note IH = Cons.IH [OF ok]
  show ?case
  proof (cases "map_of val ''schedule_details''")
    case None
    then have "doc_days val = []" by (simp add: doc_days_def)
    with None IH [OF Cons.prems(2,3)] show ?thesis by (simp add: a all_days_def)
  next
    case (Some sd)
    with Cons.prems(1) obtain kvs where sd: "sd = VDict kvs"
      by (cases sd) (auto simp: days_ok_def a)
    show ?thesis
    proof (cases "map_of kvs ''days''")
      case None
      then have "doc_days val = []" using Some sd by (simp add: doc_days_def)
      with None Some sd IH [OF Cons.prems(2,3)] show ?thesis by (simp add: a all_days_def)
    next
      case (Some ds)
      with Cons.prems(1) \<open>map_of val ''schedule_details'' = Some sd\<close> sd
      obtain xs where ds: "ds = VList xs" and sx: "list_all is_str xs"
        by (cases ds) (auto simp: days_ok_def a)
      have dd: "doc_days val = xs"
        using Some sd ds \<open>map_of val ''schedule_details'' = Some sd\<close> by (simp add: doc_days_def)
      from add_days_str [OF Cons.prems(2,3) sx] obtain acc1 where
        a1: "add_days acc xs = Inr acc1" "list_all is_str acc1" "distinct acc1"
            "set acc1 = set acc \<union> set xs" by blast
      from IH [OF a1(2,3)] obtain acc' where
        a2: "collect_days acc1 s = Inr acc'" "list_all is_str acc'" "distinct acc'"
            "set acc' = set acc1 \<union> set (all_days s)" by blast
      have "collect_days acc (a # s) = Inr acc'"
        using Some sd ds \<open>map_of val ''schedule_details'' = Some sd\<close> a1(1) a2(1)
        by (simp add: a subscript_def)
      moreover have "set acc' = set acc \<union> set (all_days (a # s))"
        using a1(4) a2(4) dd by (auto simp: a all_days_def)
      ultimately show ?thesis using a2(2,3) by blast
    qed
  qed
qed

lemma sort_key_short: "length xs \<le> 1 \<Longrightarrow> sort_key f xs = xs"
  by (cases xs) auto

lemma py_sorted_str: "list_all is_str xs \<Longrightarrow> py_sorted xs = Inr (sort_key str_of xs)"
  by (simp add: py_sorted_def sort_key_short)

lemma map_VStr_str_of: "list_all is_str xs \<Longrightarrow> map (\<lambda>x. VStr (str_of x)) xs = xs"
  by (induction xs) (auto simp: is_str_conv)

lemma str_of_inj: "is_str x \<Longrightarrow> is_str y \<Longrightarrow> str_of x = str_of y \<Longrightarrow> x = y"
  by (cases x; cases y) auto

lemma inj_on_str_of: "list_all is_str xs \<Longrightarrow> inj_on str_of (set xs)"
  by (rule inj_onI) (simp add: list_all_iff str_of_inj)

text \<open>
  Claim C4, as stated, fails on a collection whose \<^verbatim>\<open>days\<close> mix a string with a
  number: \<^verbatim>\<open>sorted\<close> cannot compare them and raises \<^verbatim>\<open>TypeError\<close>.
\<close>

theorem aggregate_mixed_days_counterexample:
  "is_days_pipeline [VDict [(''$unwind'', VStr ''$schedule_details.days'')],
                     VDict [(''$group'', VDict [(''_id'', VStr ''$schedule_details.days'')])],
                     VDict [(''$sort'', VDict [(''_id'', VInt 1)])]] = Inr True \<and>
   aggregate [VDict [(''$unwind'', VStr ''$schedule_details.days'')],
              VDict [(''$group'', VDict [(''_id'', VStr ''$schedule_details.days'')])],
              VDict [(''$sort'', VDict [(''_id'', VInt 1)])]]
     [(VStr ''Chess Club'',
       [(''schedule_details'', VDict [(''days'', VList [VStr ''Monday'', VInt 1])])])] =
     Inl TypeError"
  by (simp add: aggregate_def is_days_pipeline_def subscript_def set_add_def py_sorted_def)

text \<open>
  Claim C4, amended. On a collection in which every \<^verbatim>\<open>schedule_details\<close> is a
  dictionary whose \<^verbatim>\<open>days\<close>, when there, is a list of strings, a pipeline of three
  stages with \<^verbatim>\<open>"$unwind"\<close> in the first and \<^verbatim>\<open>"$group"\<close> in the second yields one
  record \<^verbatim>\<open>{"_id": day}\<close> for each day that occurs, each day once, in ascending
  lexicographic order. A pipeline of any other shape yields the empty list.
\<close>

theorem aggregate_distinct_days:
  "(is_days_pipeline pipeline = Inr True \<and> days_ok s \<longrightarrow>
      (\<exists>ds. aggregate pipeline s = Inr (map (\<lambda>d. [(''_id'', VStr d)]) ds) \<and>
            sorted ds \<and> distinct ds \<and> VStr ` set ds = set (all_days s))) \<and>
   (is_days_pipeline pipeline = Inr False \<longrightarrow> aggregate pipeline s = Inr []) \<and>
   (length pipeline \<noteq> 3 \<longrightarrow> is_days_pipeline pipeline = Inr False) \<and>
   is_days_pipeline [VDict a, VDict b, c] =
     Inr (map_of a ''$unwind'' \<noteq> None \<and> map_of b ''$group'' \<noteq> None)"
proof (intro conjI impI)
  assume h: "is_days_pipeline pipeline = Inr True \<and> days_ok s"
  from collect_days_str [of s "[]"] h obtain acc where
    c: "collect_days [] s = Inr acc" and st: "list_all is_str acc" and di: "distinct acc"
    and se: "set acc = set (all_days s)" by auto
  let ?ds = "map str_of (sort_key str_of acc)"
  have st': "list_all is_str (sort_key str_of acc)" using st by (simp add: list_all_iff)
  have m: "map VStr ?ds = sort_key str_of acc"
    using map_VStr_str_of [OF st'] by (simp add: comp_def)
  have "aggregate pipeline s = Inr (map (\<lambda>day. [(''_id'', day)]) (map VStr ?ds))"
    unfolding m using h c by (simp add: aggregate_def py_sorted_str [OF st])
  then have r: "aggregate pipeline s = Inr (map (\<lambda>d. [(''_id'', VStr d)]) ?ds)"
    by (simp add: comp_def)
  have s1: "sorted ?ds" by (rule sorted_sort_key)
  have s2: "distinct ?ds"
    using di inj_on_str_of [OF st] by (simp add: distinct_map)
  have "VStr ` set ?ds = set (map VStr ?ds)" by (simp only: set_map)
  also have "\<dots> = set acc" unfolding m by simp
  finally have s3: "VStr ` set ?ds = set (all_days s)" using se by simp
  show "\<exists>ds. aggregate pipeline s = Inr (map (\<lambda>d. [(''_id'', VStr d)]) ds) \<and>
            sorted ds \<and> distinct ds \<and> VStr ` set ds = set (all_days s)"
    using r s1 s2 s3 by blast
next
  assume "is_days_pipeline pipeline = Inr False"
  then show "aggregate pipeline s = Inr []" by (simp add: aggregate_def)
next
  assume "length pipeline \<noteq> 3"
  then show "is_days_pipeline pipeline = Inr False" by (simp add: is_days_pipeline_def)
next
  show "is_days_pipeline [VDict a, VDict b, c] =
     Inr (map_of a ''$unwind'' \<noteq> None \<and> map_of b ''$group'' \<noteq> None)"
    by (simp add: is_days_pipeline_def)
qed

theorem aggregate_distinct_days_witness:
  "is_days_pipeline [VDict [(''$unwind'', VNone)], VDict [(''$group'', VNone)], VDict []] = Inr True \<and>
   days_ok [(VStr ''a'', [(''schedule_details'', VDict [(''days'', VList [VStr ''Mon'', VStr ''Fri''])])]),
            (VStr ''b'', [(''schedule_details'', VDict [(''days'', VList [VStr ''Tue''])])]),
            (VStr ''c'', [(''schedule_details'', VDict [(''days'', VList [VStr ''Mon''])])])] \<and>
   aggregate [VDict [(''$unwind'', VNone)], VDict [(''$group'', VNone)], VDict []]
     [(VStr ''a'', [(''schedule_details'', VDict [(''days'', VList [VStr ''Mon'', VStr ''Fri''])])]),
      (VStr ''b'', [(''schedule_details'', VDict [(''days'', VList [VStr ''Tue''])])]),
      (VStr ''c'', [(''schedule_details'', VDict [(''days'', VList [VStr ''Mon''])])])] =
     Inr [[(''_id'', VStr ''Fri'')], [(''_id'', VStr ''Mon'')], [(''_id'', VStr ''Tue'')]] \<and>
   is_days_pipeline [VDict [(''$match'', VNone)]] = Inr False \<and>
   aggregate [VDict [(''$match'', VNone)]]
     [(VStr ''a'', [(''schedule_details'', VDict [(''days'', VList [VStr ''Mon'', VStr ''Fri''])])])] =
     Inr []"
proof -
  let ?p = "[VDict [(''$unwind'', VNone)], VDict [(''$group'', VNone)], VDict []]"
  let ?s = "[(VStr ''a'', [(''schedule_details'', VDict [(''days'', VList [VStr ''Mon'', VStr ''Fri''])])]),
            (VStr ''b'', [(''schedule_details'', VDict [(''days'', VList [VStr ''Tue''])])]),
            (VStr ''c'', [(''schedule_details'', VDict [(''days'', VList [VStr ''Mon''])])])]"
  let ?s1 = "[(VStr ''a'', [(''schedule_details'', VDict [(''days'', VList [VStr ''Mon'', VStr ''Fri''])])])]"
  have sh: "is_days_pipeline ?p = Inr True" by (simp add: is_days_pipeline_def)
  have ok: "days_ok ?s" by (simp add: days_ok_def)
  have ad: "set (all_days ?s) = {VStr ''Mon'', VStr ''Fri'', VStr ''Tue''}"
    by (auto simp: all_days_def doc_days_def)
  from aggregate_distinct_days [of ?p ?s] sh ok obtain ds where
    r: "aggregate ?p ?s = Inr (map (\<lambda>d. [(''_id'', VStr d)]) ds)"
    and so: "sorted ds" and di: "distinct ds" and se: "VStr ` set ds = set (all_days ?s)"
    by blast
  have v: "aggregate ?p ?s = Inr [[(''_id'', VStr ''Fri'')], [(''_id'', VStr ''Mon'')], [(''_id'', VStr ''Tue'')]]"
    by (simp add: aggregate_def sh subscript_def set_add_def py_sorted_def)
  have n: "is_days_pipeline [VDict [(''$match'', VNone)]] = Inr False"
    by (simp add: is_days_pipeline_def)
  from aggregate_distinct_days [of "[VDict [(''$match'', VNone)]]" ?s1] n
  have e: "aggregate [VDict [(''$match'', VNone)]] ?s1 = Inr []" by blast
  show ?thesis using sh ok v n e by simp
qed

end
